theory Spec2Isabelle
  imports Main
begin

section \<open>JavaScript values\<close>

text \<open>
  Request bodies and response payloads have the TypeScript type \<open>any\<close>. The model
  covers the values that JSON can carry, plus \<open>undefined\<close> (an absent body).
  Numbers are restricted to integers (safe integers of magnitude below \<open>10^21\<close>, which
  \<open>JSON.stringify\<close> prints in plain decimal); strings are lists of code units below 256.
  The property list of an object is kept in the order in which the engine enumerates it,
  which for names that are not array indices is the insertion order.
\<close>

datatype jsval =
    JUndefined
  | JNull
  | JBool bool
  | JNum int
  | JStr string
  | JArr "jsval list"
  | JObj "(string \<times> jsval) list"

text \<open>\<open>ToBoolean\<close>: what \<open>if (x)\<close>, \<open>!x\<close> and \<open>x || y\<close> test.\<close>

fun truthy :: "jsval \<Rightarrow> bool" where
  "truthy JUndefined = False"
| "truthy JNull = False"
| "truthy (JBool b) = b"
| "truthy (JNum n) = (n \<noteq> 0)"
| "truthy (JStr s) = (s \<noteq> [])"
| "truthy (JArr xs) = True"
| "truthy (JObj ps) = True"

text \<open>\<open>a || b\<close> on values.\<close>

definition js_or :: "jsval \<Rightarrow> jsval \<Rightarrow> jsval" where
  "js_or a b = (if truthy a then a else b)"

section \<open>The JavaScript \<open>Map\<close>\<close>

text \<open>
  A \<open>Map\<close> keeps its entries in insertion order; \<open>set\<close> on a key that is present
  replaces the value in place, \<open>delete\<close> removes the entry. It is modelled as an
  association list in which every key occurs at most once.
\<close>

definition map_get :: "('k \<times> 'v) list \<Rightarrow> 'k \<Rightarrow> 'v option" where
  "map_get m k = map_of m k"

fun map_set :: "'k \<Rightarrow> 'v \<Rightarrow> ('k \<times> 'v) list \<Rightarrow> ('k \<times> 'v) list" where
  "map_set k v [] = [(k, v)]"
| "map_set k v (p # ps) = (if fst p = k then (k, v) # ps else p # map_set k v ps)"

definition map_delete :: "'k \<Rightarrow> ('k \<times> 'v) list \<Rightarrow> ('k \<times> 'v) list" where
  "map_delete k m = filter (\<lambda>p. fst p \<noteq> k) m"

definition map_size :: "('k \<times> 'v) list \<Rightarrow> nat" where
  "map_size m = length m"

section \<open>PerformanceOptimizer: the cache\<close>

record cache_item =
  data :: jsval
  timestamp :: int
  ttl :: int

record CacheConfig =
  maxSize :: nat
  config_ttl :: int
  keyPrefix :: string

record PerformanceOptimizer =
  cache :: "(string \<times> cache_item) list"
  config :: CacheConfig

text \<open>The instance that \<open>getInstance\<close> creates: an empty cache and the fixed configuration.\<close>

definition initial_config :: CacheConfig where
  "initial_config = \<lparr> maxSize = 100, config_ttl = 5 * 60 * 1000, keyPrefix = ''fh_'' \<rparr>"

definition getInstance :: PerformanceOptimizer where
  "getInstance = \<lparr> cache = [], config = initial_config \<rparr>"

text \<open>
  \<open>cleanupCache\<close>: one pass over the entries that deletes each expired one. \<open>now\<close> is the
  reading of \<open>Date.now()\<close> taken at the start of the pass.
\<close>

definition expired :: "int \<Rightarrow> cache_item \<Rightarrow> bool" where
  "expired now item = (now - timestamp item > ttl item)"

definition cleanupCache :: "int \<Rightarrow> PerformanceOptimizer \<Rightarrow> PerformanceOptimizer" where
  "cleanupCache now po = po\<lparr> cache := filter (\<lambda>p. \<not> expired now (snd p)) (cache po) \<rparr>"

text \<open>
  \<open>evictOldest\<close>: the loop keeps \<open>(oldestKey, oldestTime)\<close>, starting from
  \<open>(null, Date.now())\<close>, and replaces the pair whenever an entry is strictly older.
\<close>

fun oldest_scan :: "(string \<times> cache_item) list \<Rightarrow> string option \<times> int \<Rightarrow> string option \<times> int" where
  "oldest_scan [] acc = acc"
| "oldest_scan (p # ps) (oldestKey, oldestTime) =
     (if timestamp (snd p) < oldestTime
      then oldest_scan ps (Some (fst p), timestamp (snd p))
      else oldest_scan ps (oldestKey, oldestTime))"

definition evictOldest :: "int \<Rightarrow> PerformanceOptimizer \<Rightarrow> PerformanceOptimizer" where
  "evictOldest now po =
     (case fst (oldest_scan (cache po) (None, now)) of
        None \<Rightarrow> po
      | Some k \<Rightarrow> (if k \<noteq> [] then po\<lparr> cache := map_delete k (cache po) \<rparr> else po))"

text \<open>
  \<open>setCache(key, data, ttl?)\<close>. \<open>Date.now()\<close> is read three times during one call: for the
  new entry's timestamp, by \<open>cleanupCache\<close> and by \<open>evictOldest\<close>; the three readings are
  the arguments \<open>t_stamp\<close>, \<open>t_clean\<close> and \<open>t_evict\<close>. An absent or zero \<open>ttl\<close> falls back
  to the configured one (\<open>ttl || this.config.ttl\<close>).
\<close>

definition setCache ::
  "int \<Rightarrow> int \<Rightarrow> int \<Rightarrow> string \<Rightarrow> jsval \<Rightarrow> int option \<Rightarrow> PerformanceOptimizer \<Rightarrow> PerformanceOptimizer" where
  "setCache t_stamp t_clean t_evict key d ttl_arg po =
     (let cacheKey = keyPrefix (config po) @ key;
          cacheTTL = (case ttl_arg of
                        None \<Rightarrow> config_ttl (config po)
                      | Some t \<Rightarrow> (if t \<noteq> 0 then t else config_ttl (config po)));
          po1 = cleanupCache t_clean po;
          po2 = (if map_size (cache po1) \<ge> maxSize (config po1) then evictOldest t_evict po1 else po1)
      in po2\<lparr> cache := map_set cacheKey \<lparr> data = d, timestamp = t_stamp, ttl = cacheTTL \<rparr> (cache po2) \<rparr>)"

text \<open>
  \<open>getCache(key)\<close> returns the value and the optimizer after the call: an expired entry is
  deleted by the lookup. A missing entry and an expired one both give \<open>null\<close>.
\<close>

definition getCache :: "int \<Rightarrow> string \<Rightarrow> PerformanceOptimizer \<Rightarrow> jsval \<times> PerformanceOptimizer" where
  "getCache now key po =
     (let cacheKey = keyPrefix (config po) @ key
      in case map_get (cache po) cacheKey of
           None \<Rightarrow> (JNull, po)
         | Some item \<Rightarrow>
             (if now - timestamp item > ttl item
              then (JNull, po\<lparr> cache := map_delete cacheKey (cache po) \<rparr>)
              else (data item, po)))"

definition clearCache :: "PerformanceOptimizer \<Rightarrow> PerformanceOptimizer" where
  "clearCache po = po\<lparr> cache := [] \<rparr>"

text \<open>
  A caller's loop \<open>for (const [key, data] of items) performanceOptimizer.setCache(key, data)\<close>
  that runs within one millisecond: every clock reading is \<open>now\<close>.
\<close>

fun setCache_all :: "int \<Rightarrow> (string \<times> jsval) list \<Rightarrow> PerformanceOptimizer \<Rightarrow> PerformanceOptimizer" where
  "setCache_all now [] po = po"
| "setCache_all now (item # items) po =
     setCache_all now items (setCache now now now (fst item) (snd item) None po)"

text \<open>
  The items of such a loop that stores \<open>n\<close> values under \<open>n\<close> different keys
  (\<open>k\<close>, \<open>kk\<close>, \<open>kkk\<close>, ...).
\<close>

definition burst_items :: "nat \<Rightarrow> (string \<times> jsval) list" where
  "burst_items n = map (\<lambda>i. (replicate (Suc i) CHR ''k'', JNum (int i))) [0..<n]"

section \<open>Strings\<close>

text \<open>\<open>String.prototype.includes\<close>: does \<open>sub\<close> occur in \<open>s\<close> at some position.\<close>

fun str_includes :: "string \<Rightarrow> string \<Rightarrow> bool" where
  "str_includes [] sub = (sub = [])"
| "str_includes (c # cs) sub = (take (length sub) (c # cs) = sub \<or> str_includes cs sub)"

text \<open>The decimal digits of a natural number, as a template literal prints a status code.\<close>

definition digit_char :: "nat \<Rightarrow> char" where
  "digit_char d = ''0123456789'' ! d"

fun show_nat :: "nat \<Rightarrow> string" where
  "show_nat n = (if n < 10 then [digit_char n] else show_nat (n div 10) @ [digit_char (n mod 10)])"

declare show_nat.simps [simp del]

definition show_int :: "int \<Rightarrow> string" where
  "show_int i = (if i < 0 then CHR ''-'' # show_nat (nat (- i)) else show_nat (nat i))"

section \<open>\<open>JSON.stringify\<close>\<close>

text \<open>
  \<open>QuoteJSONString\<close>: the string between double quotes, with the double quote, the
  backslash and the control characters escaped.
\<close>

definition hex_digit :: "nat \<Rightarrow> char" where
  "hex_digit d = ''0123456789abcdef'' ! d"

definition json_escape_char :: "char \<Rightarrow> string" where
  "json_escape_char c =
     (if c = CHR 0x08 then [CHR 0x5C, CHR ''b'']
      else if c = CHR 0x09 then [CHR 0x5C, CHR ''t'']
      else if c = CHR 0x0A then [CHR 0x5C, CHR ''n'']
      else if c = CHR 0x0C then [CHR 0x5C, CHR ''f'']
      else if c = CHR 0x0D then [CHR 0x5C, CHR ''r'']
      else if c = CHR 0x22 then [CHR 0x5C, CHR 0x22]
      else if c = CHR 0x5C then [CHR 0x5C, CHR 0x5C]
      else if (of_char c :: nat) < 32
        then [CHR 0x5C, CHR ''u'', CHR ''0'', CHR ''0'',
              hex_digit ((of_char c :: nat) div 16), hex_digit ((of_char c :: nat) mod 16)]
      else [c])"

definition QuoteJSONString :: "string \<Rightarrow> string" where
  "QuoteJSONString s = CHR 0x22 # concat (map json_escape_char s) @ [CHR 0x22]"

fun join_comma :: "string list \<Rightarrow> string" where
  "join_comma [] = []"
| "join_comma [x] = x"
| "join_comma (x # y # ys) = x @ CHR '','' # join_comma (y # ys)"

text \<open>
  \<open>SerializeJSONProperty\<close>: \<open>None\<close> stands for the result \<open>undefined\<close>. An \<open>undefined\<close>
  array element is printed as \<open>null\<close>; an object property whose value is \<open>undefined\<close> is
  left out. Properties are printed in the order of the property list.
\<close>

fun serialize :: "jsval \<Rightarrow> string option" where
  "serialize JUndefined = None"
| "serialize JNull = Some ''null''"
| "serialize (JBool b) = Some (if b then ''true'' else ''false'')"
| "serialize (JNum n) = Some (show_int n)"
| "serialize (JStr s) = Some (QuoteJSONString s)"
| "serialize (JArr xs) =
     Some (CHR ''['' # join_comma (map (\<lambda>x. case serialize x of None \<Rightarrow> ''null'' | Some t \<Rightarrow> t) xs) @ '']'')"
| "serialize (JObj ps) =
     Some (CHR ''{'' # join_comma (concat (map (\<lambda>p. case serialize (snd p) of
                                                   None \<Rightarrow> []
                                                 | Some t \<Rightarrow> [QuoteJSONString (fst p) @ CHR '':'' # t]) ps))
           @ ''}'')"

definition JSON_stringify :: "jsval \<Rightarrow> string option" where
  "JSON_stringify v = serialize v"

text \<open>A value interpolated into a template literal: \<open>undefined\<close> prints as its name.\<close>

definition template_str :: "string option \<Rightarrow> string" where
  "template_str r = (case r of None \<Rightarrow> ''undefined'' | Some t \<Rightarrow> t)"

section \<open>ApiClient: the request key\<close>

datatype http_method = GET | POST | PUT | DELETE | PATCH

fun method_str :: "http_method \<Rightarrow> string" where
  "method_str GET = ''GET''"
| "method_str POST = ''POST''"
| "method_str PUT = ''PUT''"
| "method_str DELETE = ''DELETE''"
| "method_str PATCH = ''PATCH''"

text \<open>
  \<open>ApiRequestConfig\<close>: every field is optional (\<open>None\<close> is \<open>undefined\<close>; an absent body is
  \<open>JUndefined\<close>); \<open>method_opt\<close> and \<open>cache_opt\<close> are the fields \<open>method\<close> and \<open>cache\<close>.
  The headers and the timeout only parameterise the single \<open>fetch\<close> call,
  whose outcome is an input of the model, and are left out.
\<close>

record ApiRequestConfig =
  method_opt :: "http_method option"
  body :: jsval
  cache_opt :: "bool option"
  cacheTTL :: "int option"
  retries :: "int option"

text \<open>The destructuring defaults of \<open>request\<close>.\<close>

definition with_defaults :: "ApiRequestConfig \<Rightarrow> ApiRequestConfig" where
  "with_defaults cfg =
     \<lparr> method_opt = Some (case method_opt cfg of None \<Rightarrow> GET | Some m \<Rightarrow> m),
       body = body cfg,
       cache_opt = Some (case cache_opt cfg of None \<Rightarrow> False | Some b \<Rightarrow> b),
       cacheTTL = Some (case cacheTTL cfg of None \<Rightarrow> 5 * 60 * 1000 | Some t \<Rightarrow> t),
       retries = Some (case retries cfg of None \<Rightarrow> 3 | Some r \<Rightarrow> r) \<rparr>"

text \<open>
  The key: \<open>`${method}-${url}-${JSON.stringify(body || {})}`\<close>, where \<open>method\<close> has its
  default applied.
\<close>

definition request_key :: "http_method \<Rightarrow> string \<Rightarrow> jsval \<Rightarrow> string" where
  "request_key m url b =
     method_str m @ ''-'' @ url @ ''-'' @ template_str (JSON_stringify (js_or b (JObj [])))"

section \<open>ApiClient: \<open>executeRequest\<close>\<close>

text \<open>
  What one \<open>fetch\<close> attempt can do: reject (a network failure, or the abort that the timeout
  triggers) with an \<open>Error\<close> carrying a message, or resolve to a response with a status, a
  status text and a body that \<open>response.json()\<close> either parses or rejects. The transport is
  a function from the number of the invocation (the first is 1) to its outcome.
\<close>

datatype json_result = JsonParsed jsval | JsonThrows string

datatype fetch_outcome =
    FetchRejects string
  | FetchResponse nat string json_result

text \<open>What \<open>executeRequest\<close> throws: an \<open>Error\<close> with its message, or the never-assigned \<open>lastError\<close>.\<close>

datatype thrown = ErrorObj string | UndefinedThrown

text \<open>
  The body of the \<open>try\<close> block for one attempt: \<open>Inl\<close> is the message of the error that the
  \<open>catch\<close> receives, \<open>Inr\<close> the parsed data. \<open>response.ok\<close> is a status from 200 to 299.
\<close>

definition http_error_message :: "nat \<Rightarrow> string \<Rightarrow> string" where
  "http_error_message status statusText = ''HTTP '' @ show_nat status @ '': '' @ statusText"

fun attempt_result :: "fetch_outcome \<Rightarrow> string + jsval" where
  "attempt_result (FetchRejects msg) = Inl msg"
| "attempt_result (FetchResponse status statusText b) =
     (if \<not> (200 \<le> status \<and> status \<le> 299) then Inl (http_error_message status statusText)
      else case b of JsonParsed d \<Rightarrow> Inr d | JsonThrows msg \<Rightarrow> Inl msg)"

text \<open>
  The \<open>for\<close> loop. \<open>attempt\<close> is the loop variable, \<open>calls\<close> the number of \<open>fetch\<close>
  invocations made so far and \<open>delays\<close> the back-off waits made so far, in milliseconds.
  The result is what the function returns (\<open>Inr\<close>) or throws (\<open>Inl\<close>), with the final
  \<open>calls\<close> and \<open>delays\<close>.
\<close>

function retry_loop ::
  "(nat \<Rightarrow> fetch_outcome) \<Rightarrow> int \<Rightarrow> int \<Rightarrow> thrown \<Rightarrow> nat \<Rightarrow> int list
     \<Rightarrow> (thrown + jsval) \<times> nat \<times> int list" where
  "retry_loop transport n attempt lastError calls delays =
     (if attempt \<le> n then
        (case attempt_result (transport (calls + 1)) of
           Inr d \<Rightarrow> (Inr d, calls + 1, delays)
         | Inl msg \<Rightarrow>
             (if str_includes msg ''HTTP 4'' then (Inl (ErrorObj msg), calls + 1, delays)
              else if attempt < n
                then retry_loop transport n (attempt + 1) (ErrorObj msg) (calls + 1)
                       (delays @ [2 ^ nat attempt * 1000])
                else retry_loop transport n (attempt + 1) (ErrorObj msg) (calls + 1) delays))
      else (Inl lastError, calls, delays))"
  by pat_completeness auto
termination
  by (relation "measure (\<lambda>(transport, n, attempt, lastError, calls, delays). nat (n + 1 - attempt))") auto

declare retry_loop.simps [simp del]

text \<open>
  \<open>executeRequest(url, config)\<close>. The result is the triple of the loop and the optimizer
  after the call: a successful \<open>GET\<close> with \<open>cache\<close> set stores the data under \<open>url\<close>.
  \<open>nows\<close> are the three clock readings of that \<open>setCache\<close> call. With \<open>retries\<close> undefined
  the loop condition is false at once.
\<close>

definition executeRequest ::
  "(nat \<Rightarrow> fetch_outcome) \<Rightarrow> int \<times> int \<times> int \<Rightarrow> string \<Rightarrow> ApiRequestConfig \<Rightarrow> PerformanceOptimizer
     \<Rightarrow> ((thrown + jsval) \<times> nat \<times> int list) \<times> PerformanceOptimizer" where
  "executeRequest transport nows url cfg po =
     (let run = (case retries cfg of
                   None \<Rightarrow> (Inl UndefinedThrown, 0, [])
                 | Some n \<Rightarrow> retry_loop transport n 1 UndefinedThrown 0 [])
      in case fst run of
           Inl e \<Rightarrow> (run, po)
         | Inr d \<Rightarrow>
             (if method_opt cfg = Some GET \<and> cache_opt cfg = Some True
              then (run, setCache (fst nows) (fst (snd nows)) (snd (snd nows)) url d (cacheTTL cfg) po)
              else (run, po)))"

section \<open>ApiClient: \<open>request\<close>\<close>

text \<open>
  The client with the state it works on. A promise is identified by a number.
  \<open>requestQueue\<close> maps a key to the promise of the \<open>executeRequest\<close> call in flight for it;
  \<open>inflight\<close> records, for each such promise, the key, the url and the configuration the
  call was started with; \<open>settled\<close> holds the outcome of each promise that has settled;
  \<open>fetchCalls\<close> counts the \<open>fetch\<close> invocations made by the calls that have settled;
  \<open>optimizer\<close> is the shared \<open>performanceOptimizer\<close> instance.
\<close>

record ApiClient =
  baseURL :: string
  requestQueue :: "(string \<times> nat) list"
  inflight :: "(nat \<times> string \<times> string \<times> ApiRequestConfig) list"
  settled :: "(nat \<times> (thrown + jsval)) list"
  promises :: nat
  fetchCalls :: nat
  optimizer :: PerformanceOptimizer

definition apiClient :: ApiClient where
  "apiClient = \<lparr> baseURL = ''/api'', requestQueue = [], inflight = [], settled = [],
                  promises = 0, fetchCalls = 0, optimizer = getInstance \<rparr>"

text \<open>
  JavaScript runs the statements of \<open>request\<close> up to its first \<open>await\<close> without
  interruption. \<open>request_begin\<close> is that part: it either returns the cached value or ends
  awaiting a promise, the one found in the queue or the one of the \<open>executeRequest\<close> call it
  has just started and queued. \<open>now\<close> is the clock reading of \<open>getCache\<close>.
\<close>

datatype request_step = Returned jsval | Awaits nat

definition request_begin :: "int \<Rightarrow> string \<Rightarrow> ApiRequestConfig \<Rightarrow> ApiClient \<Rightarrow> request_step \<times> ApiClient" where
  "request_begin now endpoint config0 c =
     (let cfg = with_defaults config0;
          m = (case method_opt cfg of None \<Rightarrow> GET | Some m \<Rightarrow> m);
          url = baseURL c @ endpoint;
          cacheKey = request_key m url (body cfg);
          lookup = (if m = GET \<and> cache_opt cfg = Some True
                    then getCache now cacheKey (optimizer c) else (JNull, optimizer c));
          c1 = c\<lparr> optimizer := snd lookup \<rparr>
      in if m = GET \<and> cache_opt cfg = Some True \<and> truthy (fst lookup) then (Returned (fst lookup), c1)
         else (case map_get (requestQueue c1) cacheKey of
                 Some p \<Rightarrow> (Awaits p, c1)
               | None \<Rightarrow>
                   (Awaits (promises c1),
                    c1\<lparr> requestQueue := map_set cacheKey (promises c1) (requestQueue c1),
                        inflight := map_set (promises c1) (cacheKey, url, cfg) (inflight c1),
                        promises := promises c1 + 1 \<rparr>)))"

text \<open>
  The \<open>executeRequest\<close> call behind promise \<open>p\<close> runs to its end against \<open>transport\<close>: the
  promise settles with its outcome, the cache receives what the call stores, and the
  \<open>finally\<close> block of the request that started it deletes the key from the queue.
\<close>

definition request_settle ::
  "(nat \<Rightarrow> fetch_outcome) \<Rightarrow> int \<times> int \<times> int \<Rightarrow> nat \<Rightarrow> ApiClient \<Rightarrow> ApiClient" where
  "request_settle transport nows p c =
     (case map_get (inflight c) p of
        None \<Rightarrow> c
      | Some (cacheKey, url, cfg) \<Rightarrow>
          (let r = executeRequest transport nows url cfg (optimizer c)
           in c\<lparr> optimizer := snd r,
                 settled := map_set p (fst (fst r)) (settled c),
                 fetchCalls := fetchCalls c + fst (snd (fst r)),
                 inflight := map_delete p (inflight c),
                 requestQueue := map_delete cacheKey (requestQueue c) \<rparr>))"

text \<open>What a caller of \<open>request\<close> receives once the promise it awaits has settled.\<close>

definition caller_result :: "ApiClient \<Rightarrow> request_step \<Rightarrow> (thrown + jsval) option" where
  "caller_result c st = (case st of Returned v \<Rightarrow> Some (Inr v) | Awaits p \<Rightarrow> map_get (settled c) p)"


text \<open>\<open>ApiClient.clearCache\<close> clears the optimizer's cache and touches nothing else.\<close>

definition api_clearCache :: "ApiClient \<Rightarrow> ApiClient" where
  "api_clearCache c = c\<lparr> optimizer := clearCache (optimizer c) \<rparr>"



section \<open>Facts about the \<open>Map\<close> model\<close>

lemma map_get_map_delete_same: "map_get (map_delete k m) k = None"
  by (induction m) (auto simp: map_get_def map_delete_def)

lemma map_get_map_delete_other: "k' \<noteq> k \<Longrightarrow> map_get (map_delete k m) k' = map_get m k'"
  by (induction m) (auto simp: map_get_def map_delete_def)

lemma map_get_map_set_same: "map_get (map_set k v m) k = Some v"
  by (induction m) (auto simp: map_get_def)

lemma map_get_map_set_other: "k' \<noteq> k \<Longrightarrow> map_get (map_set k v m) k' = map_get m k'"
  by (induction m) (auto simp: map_get_def)

section \<open>Cache freshness\<close>

text \<open>
  C5. For an entry stored under the prefixed key, \<open>getCache\<close> returns its value and leaves
  the optimizer as it was when the time elapsed since \<open>timestamp\<close> is at most \<open>ttl\<close>;
  otherwise it returns \<open>null\<close> (the code's "absent") and the optimizer it leaves behind no
  longer holds the entry, while every other entry stays. When the stored value is not
  itself \<open>null\<close>, the value comes back if and only if the elapsed time is at most \<open>ttl\<close>.
\<close>

theorem getCache_freshness:
  assumes "map_get (cache po) (keyPrefix (config po) @ k) = Some item"
  shows "(now - timestamp item \<le> ttl item \<longrightarrow> getCache now k po = (data item, po))
       \<and> (now - timestamp item > ttl item \<longrightarrow>
            fst (getCache now k po) = JNull
          \<and> map_get (cache (snd (getCache now k po))) (keyPrefix (config po) @ k) = None
          \<and> (\<forall>k'. k' \<noteq> keyPrefix (config po) @ k \<longrightarrow>
                map_get (cache (snd (getCache now k po))) k' = map_get (cache po) k'))
       \<and> (data item \<noteq> JNull \<longrightarrow>
            (fst (getCache now k po) = data item \<longleftrightarrow> now - timestamp item \<le> ttl item))"
  using assms
  by (auto simp: getCache_def Let_def map_get_map_delete_same map_get_map_delete_other)

theorem getCache_freshness_witness:
  "map_get (cache (setCache 1000 1000 1000 ''k'' (JNum 7) (Some 50) getInstance))
       (keyPrefix (config (setCache 1000 1000 1000 ''k'' (JNum 7) (Some 50) getInstance)) @ ''k'')
     = Some \<lparr> data = JNum 7, timestamp = 1000, ttl = 50 \<rparr>
   \<and> getCache 1050 ''k'' (setCache 1000 1000 1000 ''k'' (JNum 7) (Some 50) getInstance)
     = (JNum 7, setCache 1000 1000 1000 ''k'' (JNum 7) (Some 50) getInstance)
   \<and> fst (getCache 1051 ''k'' (setCache 1000 1000 1000 ''k'' (JNum 7) (Some 50) getInstance)) = JNull
   \<and> map_get (cache (snd (getCache 1051 ''k''
        (setCache 1000 1000 1000 ''k'' (JNum 7) (Some 50) getInstance)))) ''fh_k'' = None"
proof -
  let ?po = "setCache 1000 1000 1000 ''k'' (JNum 7) (Some 50) getInstance"
  let ?item = "\<lparr> data = JNum 7, timestamp = 1000, ttl = 50 \<rparr>"
  have pre: "keyPrefix (config ?po) = ''fh_''"
    by (simp add: setCache_def getInstance_def initial_config_def cleanupCache_def
        map_size_def Let_def)
  have h: "map_get (cache ?po) (keyPrefix (config ?po) @ ''k'') = Some ?item"
    by (simp add: setCache_def getInstance_def initial_config_def cleanupCache_def
        map_size_def map_get_def Let_def)
  from getCache_freshness [OF h, of 1050] getCache_freshness [OF h, of 1051] h pre
  show ?thesis by simp
qed

section \<open>The request key\<close>

subsection \<open>Quoted strings are self-delimiting\<close>

lemma hex_digit_inj: "i < 16 \<Longrightarrow> j < 16 \<Longrightarrow> hex_digit i = hex_digit j \<Longrightarrow> i = j"
proof -
  assume a: "i < 16" "j < 16" "hex_digit i = hex_digit j"
  have d: "distinct ''0123456789abcdef''" by simp
  have l: "length ''0123456789abcdef'' = 16" by simp
  from a d l show ?thesis unfolding hex_digit_def
    by (metis nth_eq_iff_index_eq)
qed

lemma control_char_inj:
  assumes "(of_char c :: nat) < 32" "(of_char d :: nat) < 32"
    "hex_digit ((of_char c :: nat) div 16) = hex_digit ((of_char d :: nat) div 16)"
    "hex_digit ((of_char c :: nat) mod 16) = hex_digit ((of_char d :: nat) mod 16)"
  shows "c = d"
proof -
  have "(of_char c :: nat) div 16 = (of_char d :: nat) div 16"
    using assms by (intro hex_digit_inj) auto
  moreover have "(of_char c :: nat) mod 16 = (of_char d :: nat) mod 16"
    using assms by (intro hex_digit_inj) auto
  ultimately have "(of_char c :: nat) = of_char d"
    by (metis div_mult_mod_eq)
  then show ?thesis by simp
qed

lemma escape_prefix_free:
  "json_escape_char c @ x = json_escape_char d @ y \<Longrightarrow> c = d \<and> x = y"
  unfolding json_escape_char_def
  by (auto split: if_splits dest: control_char_inj)

lemma escape_first: "\<exists>h t. json_escape_char c = h # t \<and> h \<noteq> CHR 0x22"
  by (simp add: json_escape_char_def)

lemma escaped_inj:
  "concat (map json_escape_char a) @ CHR 0x22 # r = concat (map json_escape_char b) @ CHR 0x22 # r'
   \<Longrightarrow> a = b \<and> r = r'"
proof (induction a arbitrary: b)
  case Nil
  show ?case
  proof (cases b)
    case Nil
    with Nil.prems show ?thesis by simp
  next
    case (Cons d ds)
    obtain h t where "json_escape_char d = h # t" "h \<noteq> CHR 0x22"
      using escape_first by blast
    with Nil.prems Cons show ?thesis by simp
  qed
next
  case (Cons c cs)
  show ?case
  proof (cases b)
    case Nil
    obtain h t where "json_escape_char c = h # t" "h \<noteq> CHR 0x22"
      using escape_first by blast
    with Cons.prems Nil show ?thesis by simp
  next
    case (Cons d ds)
    with Cons.prems have
      "json_escape_char c @ (concat (map json_escape_char cs) @ CHR 0x22 # r)
       = json_escape_char d @ (concat (map json_escape_char ds) @ CHR 0x22 # r')"
      by simp
    then have "c = d" and
      "concat (map json_escape_char cs) @ CHR 0x22 # r = concat (map json_escape_char ds) @ CHR 0x22 # r'"
      using escape_prefix_free by blast+
    with Cons.IH Cons show ?thesis by blast
  qed
qed

lemma QuoteJSONString_prefix_inj:
  "QuoteJSONString a @ r = QuoteJSONString b @ r' \<Longrightarrow> a = b \<and> r = r'"
  using escaped_inj [of a r b r'] by (simp add: QuoteJSONString_def)

lemma join_comma_Cons: "\<exists>t. join_comma (x # xs) = x @ t"
  by (cases xs) auto

lemma serialize_obj_head:
  assumes "v \<noteq> JUndefined"
  shows "\<exists>t. serialize (JObj ((k, v) # ps)) = Some (CHR ''{'' # QuoteJSONString k @ t)"
proof -
  from assms obtain s where s: "serialize v = Some s" by (cases v) auto
  let ?rest = "concat (map (\<lambda>p. case serialize (snd p) of None \<Rightarrow> []
                 | Some t \<Rightarrow> [QuoteJSONString (fst p) @ CHR '':'' # t]) ps)"
  obtain t where "join_comma ((QuoteJSONString k @ CHR '':'' # s) # ?rest) = (QuoteJSONString k @ CHR '':'' # s) @ t"
    using join_comma_Cons by blast
  with s show ?thesis by simp
qed

lemma request_key_eq_iff:
  "request_key m url b1 = request_key m url b2
   \<longleftrightarrow> JSON_stringify (js_or b1 (JObj [])) = JSON_stringify (js_or b2 (JObj []))"
proof -
  have t: "\<And>b. truthy (js_or b (JObj []))" by (simp add: js_or_def)
  have "\<And>b. \<exists>s. serialize (js_or b (JObj [])) = Some s"
  proof -
    fix b show "\<exists>s. serialize (js_or b (JObj [])) = Some s"
      using t [of b] by (cases "js_or b (JObj [])") auto
  qed
  then obtain s1 s2 where "serialize (js_or b1 (JObj [])) = Some s1" "serialize (js_or b2 (JObj [])) = Some s2"
    by blast
  then show ?thesis
    by (simp add: request_key_def JSON_stringify_def template_str_def)
qed

subsection \<open>Property order\<close>

text \<open>
  C2, as it is stated: two bodies with the same key-value pairs in different order derive
  the same key. It fails for \<open>{a: 1, b: 2}\<close> and \<open>{b: 2, a: 1}\<close>: the pairs are the same,
  the keys \<open>GET-/api/residents-{"a":1,"b":2}\<close> and \<open>GET-/api/residents-{"b":2,"a":1}\<close> differ.
\<close>

theorem key_order_counterexample:
  "set [(''a'', JNum 1), (''b'', JNum 2)] = set [(''b'', JNum 2), (''a'', JNum 1)]
   \<and> request_key GET ''/api/residents'' (JObj [(''a'', JNum 1), (''b'', JNum 2)])
     \<noteq> request_key GET ''/api/residents'' (JObj [(''b'', JNum 2), (''a'', JNum 1)])"
  by (simp add: request_key_def js_or_def JSON_stringify_def template_str_def QuoteJSONString_def
      json_escape_char_def insert_commute)

text \<open>
  C2, amended: for the same method and url, two bodies derive the same key exactly when
  \<open>JSON.stringify\<close> prints them (an empty object for a falsy body) alike, and it prints the
  properties in the body's own order. So bodies with the same pairs in the same order share
  a key, while object bodies whose first properties have different names (both values
  defined), such as the same two pairs swapped, derive different keys.
\<close>

theorem key_follows_property_order:
  "(request_key m url b1 = request_key m url b2
      \<longleftrightarrow> JSON_stringify (js_or b1 (JObj [])) = JSON_stringify (js_or b2 (JObj [])))
   \<and> (k1 \<noteq> k2 \<and> v1 \<noteq> JUndefined \<and> v2 \<noteq> JUndefined \<longrightarrow>
        request_key m url (JObj ((k1, v1) # ps)) \<noteq> request_key m url (JObj ((k2, v2) # qs)))"
proof (intro conjI impI)
  show "request_key m url b1 = request_key m url b2
      \<longleftrightarrow> JSON_stringify (js_or b1 (JObj [])) = JSON_stringify (js_or b2 (JObj []))"
    by (rule request_key_eq_iff)
next
  assume a: "k1 \<noteq> k2 \<and> v1 \<noteq> JUndefined \<and> v2 \<noteq> JUndefined"
  then obtain t1 t2 where
    s1: "serialize (JObj ((k1, v1) # ps)) = Some (CHR ''{'' # QuoteJSONString k1 @ t1)" and
    s2: "serialize (JObj ((k2, v2) # qs)) = Some (CHR ''{'' # QuoteJSONString k2 @ t2)"
    using serialize_obj_head by blast
  show "request_key m url (JObj ((k1, v1) # ps)) \<noteq> request_key m url (JObj ((k2, v2) # qs))"
  proof
    assume "request_key m url (JObj ((k1, v1) # ps)) = request_key m url (JObj ((k2, v2) # qs))"
    then have "JSON_stringify (JObj ((k1, v1) # ps)) = JSON_stringify (JObj ((k2, v2) # qs))"
      by (simp add: request_key_eq_iff js_or_def)
    with s1 s2 have "QuoteJSONString k1 @ t1 = QuoteJSONString k2 @ t2"
      by (simp add: JSON_stringify_def)
    then have "k1 = k2" using QuoteJSONString_prefix_inj by blast
    with a show False by simp
  qed
qed

theorem key_follows_property_order_witness:
  "(''operation'' \<noteq> ''ids'' \<and> JStr ''delete'' \<noteq> JUndefined \<and> JArr [JNum 4] \<noteq> JUndefined)
   \<and> request_key PUT ''/api/payments'' (JObj [(''operation'', JStr ''delete''), (''ids'', JArr [JNum 4])])
     \<noteq> request_key PUT ''/api/payments'' (JObj [(''ids'', JArr [JNum 4]), (''operation'', JStr ''delete'')])"
proof -
  have h: "''operation'' \<noteq> ''ids'' \<and> JStr ''delete'' \<noteq> JUndefined \<and> JArr [JNum 4] \<noteq> JUndefined"
    by simp
  from key_follows_property_order [where m = PUT and url = "''/api/payments''"
      and ?k1.0 = "''operation''" and ?v1.0 = "JStr ''delete''" and ps = "[(''ids'', JArr [JNum 4])]"
      and ?k2.0 = "''ids''" and ?v2.0 = "JArr [JNum 4]" and qs = "[(''operation'', JStr ''delete'')]"] h
  show ?thesis by blast
qed

subsection \<open>Falsy bodies\<close>

text \<open>
  C10. A falsy body (\<open>undefined\<close>, \<open>null\<close>, \<open>false\<close>, \<open>0\<close> or the empty string) is replaced
  by \<open>{}\<close> before it is printed: for a fixed method and url its key is the key of the empty
  object, \<open>method-url-{}\<close>, and a request with it takes the same step as one whose body is
  \<open>{}\<close>: the same cached value returned, or the same promise awaited.
\<close>

theorem falsy_body_key:
  assumes "\<not> truthy b"
  shows "request_key m url b = request_key m url (JObj [])
       \<and> request_key m url b = method_str m @ ''-'' @ url @ ''-{}''
       \<and> fst (request_begin now endpoint (cfg\<lparr> body := b \<rparr>) c)
           = fst (request_begin now endpoint (cfg\<lparr> body := JObj [] \<rparr>) c)"
proof -
  have k: "request_key m url b = request_key m url (JObj [])" for m url
    using assms by (simp add: request_key_def js_or_def)
  have "request_key m url (JObj []) = method_str m @ ''-'' @ url @ ''-{}''"
    by (simp add: request_key_def js_or_def JSON_stringify_def template_str_def)
  moreover have "fst (request_begin now endpoint (cfg\<lparr> body := b \<rparr>) c)
           = fst (request_begin now endpoint (cfg\<lparr> body := JObj [] \<rparr>) c)"
    by (simp add: request_begin_def Let_def with_defaults_def k split: option.splits)
  ultimately show ?thesis using k by simp
qed

lemma falsy_values: "\<not> truthy b \<longleftrightarrow> b \<in> {JUndefined, JNull, JBool False, JNum 0, JStr []}"
  by (cases b) auto

theorem falsy_body_key_witness:
  "\<not> truthy JNull
   \<and> request_key POST ''/api/health'' JNull = request_key POST ''/api/health'' (JObj [])
   \<and> request_key POST ''/api/health'' JNull = ''POST-/api/health-{}''
   \<and> fst (request_begin 1000 ''/health''
          \<lparr> method_opt = Some POST, body = JNull, cache_opt = None, cacheTTL = None, retries = None \<rparr> apiClient)
     = fst (request_begin 1000 ''/health''
          \<lparr> method_opt = Some POST, body = JObj [], cache_opt = None, cacheTTL = None, retries = None \<rparr> apiClient)"
  using falsy_body_key [of JNull POST "''/api/health''" 1000 "''/health''"
      "\<lparr> method_opt = Some POST, body = JNull, cache_opt = None, cacheTTL = None, retries = None \<rparr>" apiClient]
  by auto

section \<open>The retry loop\<close>

subsection \<open>Status codes in error messages\<close>

lemma show_nat_3digits:
  assumes "100 \<le> s" "s < 1000"
  shows "show_nat s = [digit_char (s div 100), digit_char (s div 10 mod 10), digit_char (s mod 10)]"
proof -
  have a: "\<not> s < 10" "\<not> s div 10 < 10" "s div 10 div 10 < 10" using assms by auto
  have e: "s div 10 div 10 = s div 100" by (simp add: div_mult2_eq)
  have "show_nat (s div 10 div 10) = [digit_char (s div 10 div 10)]"
    using a by (simp add: show_nat.simps [of "s div 10 div 10"])
  then have "show_nat (s div 10) = [digit_char (s div 10 div 10), digit_char (s div 10 mod 10)]"
    using a by (simp add: show_nat.simps [of "s div 10"])
  then have "show_nat s = [digit_char (s div 10 div 10), digit_char (s div 10 mod 10), digit_char (s mod 10)]"
    using a by (simp add: show_nat.simps [of s])
  with e show ?thesis by simp
qed

lemma http_4xx_message:
  assumes "400 \<le> s" "s \<le> 499"
  shows "str_includes (http_error_message s phrase) ''HTTP 4''"
proof -
  have "s div 100 = 4" using assms by auto
  then have "show_nat s = CHR ''4'' # [digit_char (s div 10 mod 10), digit_char (s mod 10)]"
    using assms show_nat_3digits [of s] by (simp add: digit_char_def)
  then show ?thesis by (simp add: http_error_message_def)
qed

lemma digit_char_not_H: "d < 10 \<Longrightarrow> digit_char d \<noteq> CHR ''H''"
proof -
  assume "d < 10"
  then have "digit_char d \<in> set ''0123456789''"
    unfolding digit_char_def by (intro nth_mem) simp
  then show ?thesis by auto
qed

lemma http_5xx_message:
  assumes "500 \<le> s" "s \<le> 599"
  shows "str_includes (http_error_message s phrase) ''HTTP 4'' \<longleftrightarrow> str_includes phrase ''HTTP 4''"
proof -
  have "s div 100 = 5" using assms by auto
  then have sn: "show_nat s = CHR ''5'' # [digit_char (s div 10 mod 10), digit_char (s mod 10)]"
    using assms show_nat_3digits [of s] by (simp add: digit_char_def)
  have "digit_char (s div 10 mod 10) \<noteq> CHR ''H''" "digit_char (s mod 10) \<noteq> CHR ''H''"
    by (simp_all add: digit_char_not_H)
  with sn show ?thesis by (simp add: http_error_message_def)
qed

subsection \<open>One step of the loop\<close>

lemma retry_loop_stop:
  "\<not> attempt \<le> n \<Longrightarrow> retry_loop transport n attempt e calls ds = (Inl e, calls, ds)"
  by (simp add: retry_loop.simps)

lemma retry_loop_success:
  "attempt \<le> n \<Longrightarrow> attempt_result (transport (calls + 1)) = Inr d
   \<Longrightarrow> retry_loop transport n attempt e calls ds = (Inr d, calls + 1, ds)"
  by (simp add: retry_loop.simps [of transport n attempt])

lemma retry_loop_client_error:
  "attempt \<le> n \<Longrightarrow> attempt_result (transport (calls + 1)) = Inl msg \<Longrightarrow> str_includes msg ''HTTP 4''
   \<Longrightarrow> retry_loop transport n attempt e calls ds = (Inl (ErrorObj msg), calls + 1, ds)"
  by (simp add: retry_loop.simps [of transport n attempt])

lemma retry_loop_retry:
  "attempt < n \<Longrightarrow> attempt_result (transport (calls + 1)) = Inl msg \<Longrightarrow> \<not> str_includes msg ''HTTP 4''
   \<Longrightarrow> retry_loop transport n attempt e calls ds
       = retry_loop transport n (attempt + 1) (ErrorObj msg) (calls + 1) (ds @ [2 ^ nat attempt * 1000])"
  by (simp add: retry_loop.simps [of transport n attempt])

lemma retry_loop_last_failure:
  "attempt_result (transport (calls + 1)) = Inl msg \<Longrightarrow> \<not> str_includes msg ''HTTP 4''
   \<Longrightarrow> retry_loop transport n n e calls ds = (Inl (ErrorObj msg), calls + 1, ds)"
  by (simp add: retry_loop.simps [of transport n n] retry_loop_stop)

lemma retry_loop_calls_ge:
  "attempt \<le> n \<Longrightarrow> calls + 1 \<le> fst (snd (retry_loop transport n attempt e calls ds))"
proof (induction transport n attempt e calls ds rule: retry_loop.induct)
  case (1 transport n attempt lastError calls delays)
  show ?case
  proof (cases "attempt_result (transport (calls + 1))")
    case (Inr d)
    with "1.prems" show ?thesis by (simp add: retry_loop_success)
  next
    case (Inl msg)
    show ?thesis
    proof (cases "str_includes msg ''HTTP 4''")
      case True
      with Inl "1.prems" show ?thesis by (simp add: retry_loop_client_error)
    next
      case False
      show ?thesis
      proof (cases "attempt < n")
        case True
        then have "attempt + 1 \<le> n" by simp
        with "1.IH"(1) [OF "1.prems" Inl False True] True Inl False
        show ?thesis by (simp add: retry_loop_retry)
      next
        case False
        with "1.prems" have "attempt = n" by simp
        with Inl \<open>\<not> str_includes msg ''HTTP 4''\<close> show ?thesis
          by (simp add: retry_loop_last_failure)
      qed
    qed
  qed
qed

lemma retry_loop_delays:
  "attempt \<le> n \<Longrightarrow>
   length (snd (snd (retry_loop transport n attempt e calls ds))) + calls + 1
   = fst (snd (retry_loop transport n attempt e calls ds)) + length ds"
proof (induction transport n attempt e calls ds rule: retry_loop.induct)
  case (1 transport n attempt lastError calls delays)
  show ?case
  proof (cases "attempt_result (transport (calls + 1))")
    case (Inr d)
    with "1.prems" show ?thesis by (simp add: retry_loop_success)
  next
    case (Inl msg)
    show ?thesis
    proof (cases "str_includes msg ''HTTP 4''")
      case True
      with Inl "1.prems" show ?thesis by (simp add: retry_loop_client_error)
    next
      case False
      show ?thesis
      proof (cases "attempt < n")
        case True
        then have "attempt + 1 \<le> n" by simp
        with "1.IH"(1) [OF "1.prems" Inl False True] True Inl False
        show ?thesis by (simp add: retry_loop_retry)
      next
        case False
        with "1.prems" have "attempt = n" by simp
        with Inl \<open>\<not> str_includes msg ''HTTP 4''\<close> show ?thesis
          by (simp add: retry_loop_last_failure)
      qed
    qed
  qed
qed


lemma executeRequest_run:
  "retries cfg = Some n
   \<Longrightarrow> fst (executeRequest transport nows url cfg po) = retry_loop transport n 1 UndefinedThrown 0 []"
  by (simp add: executeRequest_def Let_def split: sum.splits)

lemma show_nat_502: "show_nat 502 = ''502''"
  using show_nat_3digits [of 502] by (simp add: digit_char_def)

lemma show_nat_503: "show_nat 503 = ''503''"
  using show_nat_3digits [of 503] by (simp add: digit_char_def)

lemma show_nat_404: "show_nat 404 = ''404''"
  using show_nat_3digits [of 404] by (simp add: digit_char_def)

subsection \<open>Client errors\<close>

text \<open>
  C6 does not hold of the code. The comment in the \<open>catch\<close> block says that client errors
  (4xx) are not retried, and every other failure is meant to be; but the test is whether the
  error message contains the text \<open>HTTP 4\<close>, and the message of a failed response ends with
  the server's status text. A 502 whose status text is \<open>Upstream HTTP 403\<close>, with
  \<open>retries = 3\<close>, is taken for a client error: one invocation, no wait, the error thrown.
\<close>

theorem server_error_taken_for_client_error:
  "fst (executeRequest (\<lambda>i. FetchResponse 502 ''Upstream HTTP 403'' (JsonParsed JNull)) (0, 0, 0)
          ''/api/residents''
          \<lparr> method_opt = Some GET, body = JUndefined, cache_opt = Some False, cacheTTL = Some 300000,
            retries = Some 3 \<rparr> getInstance)
   = (Inl (ErrorObj ''HTTP 502: Upstream HTTP 403''), 1, [])"
proof -
  let ?t = "\<lambda>i::nat. FetchResponse 502 ''Upstream HTTP 403'' (JsonParsed JNull)"
  have m: "http_error_message 502 ''Upstream HTTP 403'' = ''HTTP 502: Upstream HTTP 403''"
    by (simp add: http_error_message_def show_nat_502)
  have r: "attempt_result (?t (0 + 1)) = Inl ''HTTP 502: Upstream HTTP 403''"
    using m by simp
  have i: "str_includes ''HTTP 502: Upstream HTTP 403'' ''HTTP 4''" by simp
  have "retry_loop ?t 3 1 UndefinedThrown 0 [] = (Inl (ErrorObj ''HTTP 502: Upstream HTTP 403''), 0 + 1, [])"
    using r i by (intro retry_loop_client_error) auto
  then show ?thesis by (simp add: executeRequest_run)
qed

text \<open>
  The part of the behaviour that is as intended. If the first response has a status from
  400 to 499 and \<open>retries\<close> is at least 1 (3 in particular), \<open>executeRequest\<close> throws
  that response's HTTP error after exactly one invocation and no wait, and leaves the cache
  alone. If \<open>retries\<close> is at least 2, a first attempt that fails with a message without the
  text \<open>HTTP 4\<close> is followed by a second invocation. And at whatever attempt a response
  with a status from 400 to 499 arrives, the loop ends with that invocation and throws its
  error.
\<close>

lemma client_error_not_retried:
  assumes "retries cfg = Some n"
  shows "(1 \<le> n \<and> transport 1 = FetchResponse status phrase b \<and> 400 \<le> status \<and> status \<le> 499 \<longrightarrow>
            executeRequest transport nows url cfg po
            = ((Inl (ErrorObj (http_error_message status phrase)), 1, []), po))
       \<and> (2 \<le> n \<and> transport 1 = FetchRejects msg \<and> \<not> str_includes msg ''HTTP 4'' \<longrightarrow>
            2 \<le> fst (snd (fst (executeRequest transport nows url cfg po))))
       \<and> (2 \<le> n \<and> transport 1 = FetchResponse status phrase b \<and> 500 \<le> status \<and> status \<le> 599
            \<and> \<not> str_includes phrase ''HTTP 4'' \<longrightarrow>
            2 \<le> fst (snd (fst (executeRequest transport nows url cfg po))))
       \<and> (attempt \<le> n \<and> transport (calls + 1) = FetchResponse status phrase b
            \<and> 400 \<le> status \<and> status \<le> 499 \<longrightarrow>
            retry_loop transport n attempt e calls ds
            = (Inl (ErrorObj (http_error_message status phrase)), calls + 1, ds))"
proof (intro conjI impI)
  assume a: "1 \<le> n \<and> transport 1 = FetchResponse status phrase b \<and> 400 \<le> status \<and> status \<le> 499"
  then have r: "attempt_result (transport (0 + 1)) = Inl (http_error_message status phrase)" by simp
  have "str_includes (http_error_message status phrase) ''HTTP 4''"
    using a by (simp add: http_4xx_message)
  with a r have "retry_loop transport n 1 UndefinedThrown 0 []
      = (Inl (ErrorObj (http_error_message status phrase)), 0 + 1, [])"
    by (intro retry_loop_client_error) auto
  with assms show "executeRequest transport nows url cfg po
            = ((Inl (ErrorObj (http_error_message status phrase)), 1, []), po)"
    by (simp add: executeRequest_def)
next
  assume a: "2 \<le> n \<and> transport 1 = FetchRejects msg \<and> \<not> str_includes msg ''HTTP 4''"
  then have r: "attempt_result (transport (0 + 1)) = Inl msg" by simp
  from a have "retry_loop transport n 1 UndefinedThrown 0 []
     = retry_loop transport n (1 + 1) (ErrorObj msg) (0 + 1) ([] @ [2 ^ nat 1 * 1000])"
    using r by (intro retry_loop_retry) auto
  moreover have "(0 + 1) + 1 \<le> fst (snd (retry_loop transport n (1 + 1) (ErrorObj msg) (0 + 1) ([] @ [2 ^ nat 1 * 1000])))"
    using a by (intro retry_loop_calls_ge) auto
  ultimately show "2 \<le> fst (snd (fst (executeRequest transport nows url cfg po)))"
    using assms by (simp add: executeRequest_run)
next
  assume a: "2 \<le> n \<and> transport 1 = FetchResponse status phrase b \<and> 500 \<le> status \<and> status \<le> 599
            \<and> \<not> str_includes phrase ''HTTP 4''"
  let ?msg = "http_error_message status phrase"
  from a have r: "attempt_result (transport (0 + 1)) = Inl ?msg" by simp
  from a have ni: "\<not> str_includes ?msg ''HTTP 4''" by (simp add: http_5xx_message)
  from a have "retry_loop transport n 1 UndefinedThrown 0 []
     = retry_loop transport n (1 + 1) (ErrorObj ?msg) (0 + 1) ([] @ [2 ^ nat 1 * 1000])"
    using r ni by (intro retry_loop_retry) auto
  moreover have "(0 + 1) + 1 \<le> fst (snd (retry_loop transport n (1 + 1) (ErrorObj ?msg) (0 + 1) ([] @ [2 ^ nat 1 * 1000])))"
    using a by (intro retry_loop_calls_ge) auto
  ultimately show "2 \<le> fst (snd (fst (executeRequest transport nows url cfg po)))"
    using assms by (simp add: executeRequest_run)
next
  assume a: "attempt \<le> n \<and> transport (calls + 1) = FetchResponse status phrase b
            \<and> 400 \<le> status \<and> status \<le> 499"
  then have r: "attempt_result (transport (calls + 1)) = Inl (http_error_message status phrase)" by simp
  have "str_includes (http_error_message status phrase) ''HTTP 4''"
    using a by (simp add: http_4xx_message)
  with a r show "retry_loop transport n attempt e calls ds
            = (Inl (ErrorObj (http_error_message status phrase)), calls + 1, ds)"
    by (intro retry_loop_client_error) auto
qed

lemma client_error_not_retried_example:
  "executeRequest (\<lambda>i. FetchResponse 404 ''Not Found'' (JsonParsed JNull)) (0, 0, 0) ''/api/residents/7''
      \<lparr> method_opt = Some GET, body = JUndefined, cache_opt = Some True, cacheTTL = Some 300000,
        retries = Some 3 \<rparr> getInstance
   = ((Inl (ErrorObj ''HTTP 404: Not Found''), 1, []), getInstance)
   \<and> 2 \<le> fst (snd (fst (executeRequest (\<lambda>i. FetchRejects ''Failed to fetch'') (0, 0, 0) ''/api/residents/7''
      \<lparr> method_opt = Some GET, body = JUndefined, cache_opt = Some True, cacheTTL = Some 300000,
        retries = Some 3 \<rparr> getInstance)))
   \<and> 2 \<le> fst (snd (fst (executeRequest (\<lambda>i. FetchResponse 500 ''Internal Server Error'' (JsonParsed JNull))
      (0, 0, 0) ''/api/residents/7''
      \<lparr> method_opt = Some GET, body = JUndefined, cache_opt = Some True, cacheTTL = Some 300000,
        retries = Some 3 \<rparr> getInstance)))
   \<and> retry_loop (\<lambda>i. FetchResponse 404 ''Not Found'' (JsonParsed JNull)) 3 2
        (ErrorObj ''HTTP 500: Internal Server Error'') 1 [2000]
     = (Inl (ErrorObj ''HTTP 404: Not Found''), 2, [2000])"
proof -
  let ?cfg = "\<lparr> method_opt = Some GET, body = JUndefined, cache_opt = Some True, cacheTTL = Some 300000,
        retries = Some (3::int) \<rparr>"
  have c: "retries ?cfg = Some 3" by simp
  have n1: "\<not> str_includes ''Failed to fetch'' ''HTTP 4''" by simp
  have n2: "\<not> str_includes ''Internal Server Error'' ''HTTP 4''" by simp
  have m: "http_error_message 404 ''Not Found'' = ''HTTP 404: Not Found''"
    by (simp add: http_error_message_def show_nat_404)
  from client_error_not_retried [where cfg = "?cfg" and n = "3" and transport = "\<lambda>i. FetchResponse 404 ''Not Found'' (JsonParsed JNull)"
      and status = "404" and phrase = "''Not Found''" and b = "JsonParsed JNull" and nows = "(0, 0, 0)"
      and url = "''/api/residents/7''" and po = getInstance, OF c]
  have "executeRequest (\<lambda>i. FetchResponse 404 ''Not Found'' (JsonParsed JNull)) (0, 0, 0) ''/api/residents/7''
      ?cfg getInstance = ((Inl (ErrorObj ''HTTP 404: Not Found''), 1, []), getInstance)"
    using m by simp
  moreover from client_error_not_retried [where cfg = "?cfg" and n = "3" and transport = "\<lambda>i. FetchRejects ''Failed to fetch''"
      and msg = "''Failed to fetch''" and nows = "(0, 0, 0)"
      and url = "''/api/residents/7''" and po = getInstance, OF c] n1
  have "2 \<le> fst (snd (fst (executeRequest (\<lambda>i. FetchRejects ''Failed to fetch'') (0, 0, 0)
      ''/api/residents/7'' ?cfg getInstance)))"
    by simp
  moreover from client_error_not_retried [where cfg = "?cfg" and n = "3" and transport = "\<lambda>i. FetchResponse 500 ''Internal Server Error'' (JsonParsed JNull)"
      and status = "500" and phrase = "''Internal Server Error''" and b = "JsonParsed JNull" and nows = "(0, 0, 0)"
      and url = "''/api/residents/7''" and po = getInstance, OF c] n2
  have "2 \<le> fst (snd (fst (executeRequest (\<lambda>i. FetchResponse 500 ''Internal Server Error'' (JsonParsed JNull))
      (0, 0, 0) ''/api/residents/7'' ?cfg getInstance)))"
    by simp
  moreover from client_error_not_retried [where cfg = "?cfg" and n = "3"
      and transport = "\<lambda>i. FetchResponse 404 ''Not Found'' (JsonParsed JNull)"
      and status = "404" and phrase = "''Not Found''" and b = "JsonParsed JNull"
      and attempt = "2" and calls = "1" and e = "ErrorObj ''HTTP 500: Internal Server Error''"
      and ds = "[2000]", OF c]
  have "retry_loop (\<lambda>i. FetchResponse 404 ''Not Found'' (JsonParsed JNull)) 3 2
        (ErrorObj ''HTTP 500: Internal Server Error'') 1 [2000]
     = (Inl (ErrorObj ''HTTP 404: Not Found''), 2, [2000])"
    using m by simp
  ultimately show ?thesis by simp
qed

subsection \<open>Back-off\<close>

text \<open>
  C7 does not hold of the code, by the same test on the error message. The transport answers
  the first two attempts with a 503 and would answer the third with a success; the status
  text of the 503 is \<open>Backend HTTP 429\<close>. With \<open>retries = 3\<close> the first failure is
  taken for a client error and ends the loop: one invocation instead of three, no wait, and
  the error thrown instead of the successful result.
\<close>

theorem server_error_ends_backoff:
  "fst (executeRequest
          (\<lambda>i. if i < 3 then FetchResponse 503 ''Backend HTTP 429'' (JsonParsed JNull)
                else FetchResponse 200 ''OK'' (JsonParsed (JNum 5)))
          (0, 0, 0) ''/api/analytics''
          \<lparr> method_opt = Some GET, body = JUndefined, cache_opt = Some False, cacheTTL = Some 300000,
            retries = Some 3 \<rparr> getInstance)
   = (Inl (ErrorObj ''HTTP 503: Backend HTTP 429''), 1, [])"
proof -
  let ?t = "\<lambda>i::nat. if i < 3 then FetchResponse 503 ''Backend HTTP 429'' (JsonParsed JNull)
                else FetchResponse 200 ''OK'' (JsonParsed (JNum 5))"
  have m: "http_error_message 503 ''Backend HTTP 429'' = ''HTTP 503: Backend HTTP 429''"
    by (simp add: http_error_message_def show_nat_503)
  have r: "attempt_result (?t (0 + 1)) = Inl ''HTTP 503: Backend HTTP 429''"
    using m by simp
  have i: "str_includes ''HTTP 503: Backend HTTP 429'' ''HTTP 4''" by simp
  have "retry_loop ?t 3 1 UndefinedThrown 0 [] = (Inl (ErrorObj ''HTTP 503: Backend HTTP 429''), 0 + 1, [])"
    using r i by (intro retry_loop_client_error) auto
  then show ?thesis by (simp add: executeRequest_run)
qed

text \<open>
  The part of the behaviour that is as intended. With \<open>retries = 3\<close>, if the first two
  responses are 503s whose status texts are without the text \<open>HTTP 4\<close> and the third is a
  success (a status from 200 to 299 and a body that parses), \<open>executeRequest\<close> returns the
  parsed data after exactly three invocations, having waited \<open>2^1 * 1000\<close> and then
  \<open>2^2 * 1000\<close> milliseconds: two waits, non-decreasing, none after the third attempt.
  In every run with \<open>retries\<close> at least 1, whatever the transport does, the number of
  waits is one less than the number of invocations: no wait follows the last attempt.
\<close>

lemma retry_backoff:
  assumes "retries cfg = Some 3"
    and "transport 1 = FetchResponse 503 phrase1 b1" and "\<not> str_includes phrase1 ''HTTP 4''"
    and "transport 2 = FetchResponse 503 phrase2 b2" and "\<not> str_includes phrase2 ''HTTP 4''"
    and "transport 3 = FetchResponse status phrase3 (JsonParsed d)" and "200 \<le> status" and "status \<le> 299"
  shows "fst (executeRequest transport nows url cfg po) = (Inr d, 3, [2 ^ 1 * 1000, 2 ^ 2 * 1000])
       \<and> (retries cfg' = Some n \<and> 1 \<le> n \<longrightarrow>
            length (snd (snd (fst (executeRequest transport' nows' url' cfg' po')))) + 1
            = fst (snd (fst (executeRequest transport' nows' url' cfg' po'))))"
proof -
  let ?m1 = "http_error_message 503 phrase1" and ?m2 = "http_error_message 503 phrase2"
  have r1: "attempt_result (transport (0 + 1)) = Inl ?m1" using assms by simp
  have e2: "(1::nat) + 1 = 2" and e3: "(2::nat) + 1 = 3" by simp_all
  have r2: "attempt_result (transport (1 + 1)) = Inl ?m2" unfolding e2 using assms by simp
  have r3: "attempt_result (transport (2 + 1)) = Inr d" unfolding e3 using assms by simp
  have n1: "\<not> str_includes ?m1 ''HTTP 4''" using assms by (simp add: http_5xx_message)
  have n2: "\<not> str_includes ?m2 ''HTTP 4''" using assms by (simp add: http_5xx_message)
  have "retry_loop transport 3 1 UndefinedThrown 0 []
      = retry_loop transport 3 (1 + 1) (ErrorObj ?m1) (0 + 1) ([] @ [2 ^ nat 1 * 1000])"
    using r1 n1 by (intro retry_loop_retry) auto
  also have "\<dots> = retry_loop transport 3 2 (ErrorObj ?m1) 1 [2 ^ 1 * 1000]" by simp
  also have "\<dots> = retry_loop transport 3 (2 + 1) (ErrorObj ?m2) (1 + 1) ([2 ^ 1 * 1000] @ [2 ^ nat 2 * 1000])"
    using r2 n2 by (intro retry_loop_retry) auto
  also have "\<dots> = retry_loop transport 3 3 (ErrorObj ?m2) 2 [2 ^ 1 * 1000, 2 ^ 2 * 1000]"
    by (simp add: numeral_2_eq_2)
  also have "\<dots> = (Inr d, 2 + 1, [2 ^ 1 * 1000, 2 ^ 2 * 1000])"
    using r3 by (intro retry_loop_success) auto
  finally have scenario: "fst (executeRequest transport nows url cfg po)
      = (Inr d, 3, [2 ^ 1 * 1000, 2 ^ 2 * 1000])"
    using assms(1) by (simp add: executeRequest_run numeral_3_eq_3)
  have waits: "length (snd (snd (fst (executeRequest transport' nows' url' cfg' po')))) + 1
            = fst (snd (fst (executeRequest transport' nows' url' cfg' po')))"
    if h: "retries cfg' = Some n \<and> 1 \<le> n"
  proof -
    from h have "length (snd (snd (retry_loop transport' n 1 UndefinedThrown 0 []))) + 0 + 1
        = fst (snd (retry_loop transport' n 1 UndefinedThrown 0 [])) + length ([] :: int list)"
      by (intro retry_loop_delays) simp
    with h show ?thesis by (simp add: executeRequest_run)
  qed
  from scenario waits show ?thesis by blast
qed

lemma retry_backoff_example:
  "fst (executeRequest
          (\<lambda>i. if i < 3 then FetchResponse 503 ''Service Unavailable'' (JsonParsed JNull)
                else FetchResponse 200 ''OK'' (JsonParsed (JNum 5)))
          (0, 0, 0) ''/api/analytics''
          \<lparr> method_opt = Some GET, body = JUndefined, cache_opt = Some False, cacheTTL = Some 300000,
            retries = Some 3 \<rparr> getInstance)
   = (Inr (JNum 5), 3, [2000, 4000])
   \<and> length (snd (snd (fst (executeRequest (\<lambda>i. FetchResponse 503 ''Service Unavailable'' (JsonParsed JNull))
          (0, 0, 0) ''/api/analytics''
          \<lparr> method_opt = Some GET, body = JUndefined, cache_opt = Some False, cacheTTL = Some 300000,
            retries = Some 3 \<rparr> getInstance)))) + 1
     = fst (snd (fst (executeRequest (\<lambda>i. FetchResponse 503 ''Service Unavailable'' (JsonParsed JNull))
          (0, 0, 0) ''/api/analytics''
          \<lparr> method_opt = Some GET, body = JUndefined, cache_opt = Some False, cacheTTL = Some 300000,
            retries = Some 3 \<rparr> getInstance)))"
proof -
  let ?t = "\<lambda>i::nat. if i < 3 then FetchResponse 503 ''Service Unavailable'' (JsonParsed JNull)
                else FetchResponse 200 ''OK'' (JsonParsed (JNum 5))"
  let ?cfg = "\<lparr> method_opt = Some GET, body = JUndefined, cache_opt = Some False, cacheTTL = Some 300000,
            retries = Some (3::int) \<rparr>"
  have c: "retries ?cfg = Some 3" by simp
  have t1: "?t 1 = FetchResponse 503 ''Service Unavailable'' (JsonParsed JNull)" by simp
  have t2: "?t 2 = FetchResponse 503 ''Service Unavailable'' (JsonParsed JNull)" by simp
  have t3: "?t 3 = FetchResponse 200 ''OK'' (JsonParsed (JNum 5))" by simp
  have n: "\<not> str_includes ''Service Unavailable'' ''HTTP 4''" by simp
  have s: "(200::nat) \<le> 200" "(200::nat) \<le> 299" by simp_all
  have g: "retries ?cfg = Some 3 \<and> (1::int) \<le> 3" by simp
  from retry_backoff [OF c t1 n t2 n t3 s, where nows = "(0, 0, 0)" and url = "''/api/analytics''"
      and po = getInstance and cfg' = ?cfg and n = "3" and nows' = "(0, 0, 0)" and url' = "''/api/analytics''"
      and po' = getInstance
      and transport' = "\<lambda>i. FetchResponse 503 ''Service Unavailable'' (JsonParsed JNull)"] g
  show ?thesis by simp
qed

section \<open>Requests, the queue and the cache\<close>

subsection \<open>Clearing the cache\<close>

lemma executeRequest_outcome_indep:
  "fst (executeRequest transport nows url cfg po) = fst (executeRequest transport nows url cfg po')"
  by (simp add: executeRequest_def Let_def split: sum.splits option.splits)

lemma getCache_clearCache: "getCache now k (clearCache po) = (JNull, clearCache po)"
  by (simp add: getCache_def clearCache_def map_get_def)

text \<open>
  C8. After \<open>clearCache\<close>, \<open>getCache\<close> returns \<open>null\<close> for every key. The request queue,
  the calls in flight and the settled promises are what they were, and a call in flight
  settles after the clear exactly as it would have without it: the same outcome for its
  promise, the same queue afterwards, the same number of \<open>fetch\<close> invocations.
\<close>

theorem clearCache_frame:
  "getCache now k (optimizer (api_clearCache c)) = (JNull, optimizer (api_clearCache c))
   \<and> requestQueue (api_clearCache c) = requestQueue c
   \<and> inflight (api_clearCache c) = inflight c
   \<and> settled (api_clearCache c) = settled c
   \<and> settled (request_settle transport nows p (api_clearCache c)) = settled (request_settle transport nows p c)
   \<and> requestQueue (request_settle transport nows p (api_clearCache c))
       = requestQueue (request_settle transport nows p c)
   \<and> fetchCalls (request_settle transport nows p (api_clearCache c))
       = fetchCalls (request_settle transport nows p c)"
proof -
  have e: "fst (executeRequest transport nows url cfg (clearCache (optimizer c)))
         = fst (executeRequest transport nows url cfg (optimizer c))" for url cfg
    by (rule executeRequest_outcome_indep)
  show ?thesis
    by (simp add: api_clearCache_def getCache_clearCache request_settle_def Let_def e
        split: option.splits prod.splits)
qed

subsection \<open>Where a response is cached\<close>

lemma request_key_not_url: "request_key m url b \<noteq> url"
proof -
  have "length url < length (request_key m url b)"
    by (simp add: request_key_def)
  then show ?thesis by auto
qed

lemma executeRequest_stores_under_url:
  "fst (fst (executeRequest transport nows url cfg po)) = Inr d
   \<Longrightarrow> method_opt cfg = Some GET \<Longrightarrow> cache_opt cfg = Some True
   \<Longrightarrow> snd (executeRequest transport nows url cfg po)
       = setCache (fst nows) (fst (snd nows)) (snd (snd nows)) url d (cacheTTL cfg) po"
  by (simp add: executeRequest_def Let_def split: sum.splits)

text \<open>
  C1 does not hold of the code. \<open>request\<close> looks the cache up under the derived key, but
  \<open>executeRequest\<close> stores the response under the url alone, and the two strings are never
  equal. The run below is \<open>get('/residents/7', {cache: true})\<close> against a transport that
  answers 200: the caller receives the data, the cache then holds it under
  \<open>fh_/api/residents/7\<close>, while the key is \<open>GET-/api/residents/7-{}\<close>; the same request
  issued 10 ms later, well within the 5 minutes of the entry, starts a second
  \<open>executeRequest\<close> call (promise 1), and after it two \<open>fetch\<close> invocations have been made.
\<close>

theorem cached_get_is_fetched_again:
  "caller_result
     (request_settle (\<lambda>i. FetchResponse 200 ''OK'' (JsonParsed (JObj [(''id'', JNum 7)]))) (1005, 1005, 1005) 0
        (snd (request_begin 1000 ''/residents/7''
           \<lparr> method_opt = Some GET, body = JUndefined, cache_opt = Some True, cacheTTL = None, retries = None \<rparr>
           apiClient)))
     (Awaits 0) = Some (Inr (JObj [(''id'', JNum 7)]))
   \<and> cache (optimizer
     (request_settle (\<lambda>i. FetchResponse 200 ''OK'' (JsonParsed (JObj [(''id'', JNum 7)]))) (1005, 1005, 1005) 0
        (snd (request_begin 1000 ''/residents/7''
           \<lparr> method_opt = Some GET, body = JUndefined, cache_opt = Some True, cacheTTL = None, retries = None \<rparr>
           apiClient))))
     = [(''fh_/api/residents/7'', \<lparr> data = JObj [(''id'', JNum 7)], timestamp = 1005, ttl = 300000 \<rparr>)]
   \<and> request_key GET ''/api/residents/7'' JUndefined = ''GET-/api/residents/7-{}''
   \<and> fst (request_begin 1010 ''/residents/7''
           \<lparr> method_opt = Some GET, body = JUndefined, cache_opt = Some True, cacheTTL = None, retries = None \<rparr>
     (request_settle (\<lambda>i. FetchResponse 200 ''OK'' (JsonParsed (JObj [(''id'', JNum 7)]))) (1005, 1005, 1005) 0
        (snd (request_begin 1000 ''/residents/7''
           \<lparr> method_opt = Some GET, body = JUndefined, cache_opt = Some True, cacheTTL = None, retries = None \<rparr>
           apiClient)))) = Awaits 1
   \<and> fetchCalls
     (request_settle (\<lambda>i. FetchResponse 200 ''OK'' (JsonParsed (JObj [(''id'', JNum 7)]))) (1015, 1015, 1015) 1
       (snd (request_begin 1010 ''/residents/7''
           \<lparr> method_opt = Some GET, body = JUndefined, cache_opt = Some True, cacheTTL = None, retries = None \<rparr>
     (request_settle (\<lambda>i. FetchResponse 200 ''OK'' (JsonParsed (JObj [(''id'', JNum 7)]))) (1005, 1005, 1005) 0
        (snd (request_begin 1000 ''/residents/7''
           \<lparr> method_opt = Some GET, body = JUndefined, cache_opt = Some True, cacheTTL = None, retries = None \<rparr>
           apiClient)))))) = 2"
  by code_simp

subsection \<open>Falsy cached values\<close>


text \<open>
  C9. \<open>getCache\<close> returns \<open>null\<close> for a key without entry, and also for a live entry whose
  value is \<open>null\<close>. For a \<open>GET\<close> with \<open>cache\<close> set whose key has a live entry with a falsy
  value, \<open>getCache\<close> hands that value back and \<open>request\<close> goes on as after a miss: it awaits
  the call already queued for the key if there is one, and otherwise starts and queues a
  new \<open>executeRequest\<close> call, which with \<open>retries\<close> at least 1 makes at least one \<open>fetch\<close>
  invocation.
\<close>

theorem falsy_cached_value_is_a_miss:
  assumes get: "method_opt (with_defaults cfg) = Some GET"
    and on: "cache_opt (with_defaults cfg) = Some True"
    and key: "key = request_key GET (baseURL c @ endpoint) (body cfg)"
    and entry: "map_get (cache (optimizer c)) (keyPrefix (config (optimizer c)) @ key) = Some item"
    and live: "now - timestamp item \<le> ttl item"
    and falsy: "\<not> truthy (data item)"
  shows "(map_get (cache po) (keyPrefix (config po) @ k) = None \<longrightarrow> getCache t k po = (JNull, po))
       \<and> (data item = JNull \<longrightarrow> getCache now key (optimizer c) = (JNull, optimizer c))
       \<and> getCache now key (optimizer c) = (data item, optimizer c)
       \<and> request_begin now endpoint cfg c =
            (case map_get (requestQueue c) key of
               Some p \<Rightarrow> (Awaits p, c)
             | None \<Rightarrow>
                 (Awaits (promises c),
                  c\<lparr> requestQueue := map_set key (promises c) (requestQueue c),
                     inflight := map_set (promises c) (key, baseURL c @ endpoint, with_defaults cfg) (inflight c),
                     promises := promises c + 1 \<rparr>))
       \<and> (map_get (requestQueue c) key = None \<and> retries (with_defaults cfg) = Some n \<and> 1 \<le> n \<longrightarrow>
            fetchCalls c + 1
            \<le> fetchCalls (request_settle transport tn (promises c) (snd (request_begin now endpoint cfg c))))"
proof -
  have g: "getCache now key (optimizer c) = (data item, optimizer c)"
    using entry live by (simp add: getCache_def Let_def)
  have a: "map_get (cache po) (keyPrefix (config po) @ k) = None \<longrightarrow> getCache t k po = (JNull, po)"
    by (simp add: getCache_def Let_def)
  have rb: "request_begin now endpoint cfg c =
            (case map_get (requestQueue c) key of
               Some p \<Rightarrow> (Awaits p, c)
             | None \<Rightarrow>
                 (Awaits (promises c),
                  c\<lparr> requestQueue := map_set key (promises c) (requestQueue c),
                     inflight := map_set (promises c) (key, baseURL c @ endpoint, with_defaults cfg) (inflight c),
                     promises := promises c + 1 \<rparr>))"
    using get on falsy g key
    by (auto simp: request_begin_def Let_def with_defaults_def split: option.splits)
  have net: "fetchCalls c + 1
            \<le> fetchCalls (request_settle transport tn (promises c) (snd (request_begin now endpoint cfg c)))"
    if h: "map_get (requestQueue c) key = None \<and> retries (with_defaults cfg) = Some n \<and> 1 \<le> n"
  proof -
    let ?c1 = "c\<lparr> requestQueue := map_set key (promises c) (requestQueue c),
                  inflight := map_set (promises c) (key, baseURL c @ endpoint, with_defaults cfg) (inflight c),
                  promises := promises c + 1 \<rparr>"
    from rb h have c1: "snd (request_begin now endpoint cfg c) = ?c1" by simp
    have i: "map_get (inflight ?c1) (promises c) = Some (key, baseURL c @ endpoint, with_defaults cfg)"
      by (simp add: map_get_map_set_same)
    have "0 + 1 \<le> fst (snd (retry_loop transport n 1 UndefinedThrown 0 []))"
      using h by (intro retry_loop_calls_ge) simp
    then have "1 \<le> fst (snd (fst (executeRequest transport tn (baseURL c @ endpoint) (with_defaults cfg)
                                    (optimizer ?c1))))"
      using h by (simp add: executeRequest_run)
    then show ?thesis
      unfolding c1 using i by (simp add: request_settle_def Let_def)
  qed
  from g a rb net falsy show ?thesis
    by (cases "data item") auto
qed

theorem falsy_cached_value_is_a_miss_witness:
  "map_get (cache (setCache 1000 1000 1000 ''GET-/api/health-{}'' (JNum 0) None getInstance))
       ''fh_GET-/api/health-{}''
     = Some \<lparr> data = JNum 0, timestamp = 1000, ttl = 300000 \<rparr>
   \<and> \<not> truthy (JNum 0)
   \<and> getCache 2000 ''GET-/api/health-{}'' (setCache 1000 1000 1000 ''GET-/api/health-{}'' (JNum 0) None getInstance)
     = (JNum 0, setCache 1000 1000 1000 ''GET-/api/health-{}'' (JNum 0) None getInstance)
   \<and> fst (request_begin 2000 ''/health''
          \<lparr> method_opt = None, body = JUndefined, cache_opt = Some True, cacheTTL = None, retries = None \<rparr>
          (apiClient\<lparr> optimizer := setCache 1000 1000 1000 ''GET-/api/health-{}'' (JNum 0) None getInstance \<rparr>))
     = Awaits 0
   \<and> 1 \<le> fetchCalls (request_settle (\<lambda>i. FetchResponse 200 ''OK'' (JsonParsed (JNum 0))) (2005, 2005, 2005) 0
        (snd (request_begin 2000 ''/health''
          \<lparr> method_opt = None, body = JUndefined, cache_opt = Some True, cacheTTL = None, retries = None \<rparr>
          (apiClient\<lparr> optimizer := setCache 1000 1000 1000 ''GET-/api/health-{}'' (JNum 0) None getInstance \<rparr>))))"
proof -
  let ?po = "setCache 1000 1000 1000 ''GET-/api/health-{}'' (JNum 0) None getInstance"
  let ?c = "apiClient\<lparr> optimizer := ?po \<rparr>"
  let ?cfg = "\<lparr> method_opt = None, body = JUndefined, cache_opt = Some True, cacheTTL = None,
                retries = None \<rparr>"
  let ?item = "\<lparr> data = JNum 0, timestamp = 1000, ttl = 300000 \<rparr>"
  have cache: "cache ?po = [(''fh_GET-/api/health-{}'', ?item)]" and pre: "keyPrefix (config ?po) = ''fh_''"
    by (simp_all add: setCache_def getInstance_def initial_config_def cleanupCache_def map_size_def Let_def)
  have get: "method_opt (with_defaults ?cfg) = Some GET" and on: "cache_opt (with_defaults ?cfg) = Some True"
    and r: "retries (with_defaults ?cfg) = Some 3"
    by (simp_all add: with_defaults_def)
  have key: "''GET-/api/health-{}'' = request_key GET (baseURL ?c @ ''/health'') (body ?cfg)"
    by (simp add: request_key_def js_or_def JSON_stringify_def template_str_def apiClient_def)
  have entry: "map_get (cache (optimizer ?c)) (keyPrefix (config (optimizer ?c)) @ ''GET-/api/health-{}'')
      = Some ?item"
    by (simp add: cache pre map_get_def)
  have live: "2000 - timestamp ?item \<le> ttl ?item" by simp
  have falsy: "\<not> truthy (data ?item)" by simp
  have q: "map_get (requestQueue ?c) ''GET-/api/health-{}'' = None \<and> retries (with_defaults ?cfg) = Some 3
      \<and> (1::int) \<le> 3"
    using r by (simp add: apiClient_def map_get_def)
  from falsy_cached_value_is_a_miss [OF get on key entry live falsy,
      where transport = "\<lambda>i. FetchResponse 200 ''OK'' (JsonParsed (JNum 0))" and tn = "(2005, 2005, 2005)"
        and n = 3] q
  have g: "getCache 2000 ''GET-/api/health-{}'' (optimizer ?c) = (data ?item, optimizer ?c)"
    and b: "request_begin 2000 ''/health'' ?cfg ?c =
            (case map_get (requestQueue ?c) ''GET-/api/health-{}'' of
               Some p \<Rightarrow> (Awaits p, ?c)
             | None \<Rightarrow>
                 (Awaits (promises ?c),
                  ?c\<lparr> requestQueue := map_set ''GET-/api/health-{}'' (promises ?c) (requestQueue ?c),
                     inflight := map_set (promises ?c)
                        (''GET-/api/health-{}'', baseURL ?c @ ''/health'', with_defaults ?cfg) (inflight ?c),
                     promises := promises ?c + 1 \<rparr>))"
    and f: "fetchCalls ?c + 1
            \<le> fetchCalls (request_settle (\<lambda>i. FetchResponse 200 ''OK'' (JsonParsed (JNum 0)))
                  (2005, 2005, 2005) (promises ?c) (snd (request_begin 2000 ''/health'' ?cfg ?c)))"
    by blast+
  from b q have b': "fst (request_begin 2000 ''/health'' ?cfg ?c) = Awaits 0"
    by (simp add: apiClient_def)
  from f have f': "1 \<le> fetchCalls (request_settle (\<lambda>i. FetchResponse 200 ''OK'' (JsonParsed (JNum 0)))
                  (2005, 2005, 2005) 0 (snd (request_begin 2000 ''/health'' ?cfg ?c)))"
    by (simp add: apiClient_def)
  from g have g': "getCache 2000 ''GET-/api/health-{}'' ?po = (JNum 0, ?po)" by simp
  from entry pre have e': "map_get (cache ?po) ''fh_GET-/api/health-{}'' = Some ?item" by simp
  from e' g' b' f' show ?thesis by simp
qed

subsection \<open>Requests issued while one is in flight\<close>












section \<open>The capacity of the cache\<close>

lemma oldest_scan_none_older:
  "\<forall>p \<in> set m. \<not> timestamp (snd p) < t \<Longrightarrow> oldest_scan m (k, t) = (k, t)"
  by (induction m) auto

lemma map_set_fresh: "k \<notin> fst ` set m \<Longrightarrow> map_set k v m = m @ [(k, v)]"
  by (induction m) auto

lemma setCache_same_ms:
  assumes inv: "\<forall>p \<in> set (cache po). timestamp (snd p) = now \<and> 0 \<le> ttl (snd p)"
    and fresh: "keyPrefix (config po) @ k \<notin> fst ` set (cache po)"
  shows "cache (setCache now now now k d None po)
         = cache po @ [(keyPrefix (config po) @ k, \<lparr> data = d, timestamp = now, ttl = config_ttl (config po) \<rparr>)]
       \<and> config (setCache now now now k d None po) = config po"
proof -
  have keep: "filter (\<lambda>p. \<not> expired now (snd p)) (cache po) = cache po"
    using inv by (intro filter_True) (auto simp: expired_def)
  then have cl: "cleanupCache now po = po"
    by (simp add: cleanupCache_def)
  have "oldest_scan (cache po) (None, now) = (None, now)"
    using inv by (intro oldest_scan_none_older) auto
  then have ev: "evictOldest now po = po"
    by (simp add: evictOldest_def)
  show ?thesis
    using fresh by (simp add: setCache_def Let_def cl ev map_set_fresh)
qed

lemma setCache_all_same_ms:
  assumes "\<forall>p \<in> set (cache po). timestamp (snd p) = now \<and> 0 \<le> ttl (snd p)"
    and "0 \<le> config_ttl (config po)"
    and "distinct (map fst items)"
    and "\<forall>it \<in> set items. keyPrefix (config po) @ fst it \<notin> fst ` set (cache po)"
  shows "map_size (cache (setCache_all now items po)) = map_size (cache po) + length items
       \<and> config (setCache_all now items po) = config po"
  using assms
proof (induction items arbitrary: po)
  case Nil
  then show ?case by simp
next
  case (Cons item items)
  let ?po = "setCache now now now (fst item) (snd item) None po"
  have fresh: "keyPrefix (config po) @ fst item \<notin> fst ` set (cache po)"
    using Cons.prems(4) by simp
  from setCache_same_ms [OF Cons.prems(1) fresh, of "snd item"] have
    c: "cache ?po = cache po @ [(keyPrefix (config po) @ fst item,
           \<lparr> data = snd item, timestamp = now, ttl = config_ttl (config po) \<rparr>)]"
    and g: "config ?po = config po" by simp_all
  have i1: "\<forall>p \<in> set (cache ?po). timestamp (snd p) = now \<and> 0 \<le> ttl (snd p)"
    using c Cons.prems(1,2) by auto
  have i2: "0 \<le> config_ttl (config ?po)" using g Cons.prems(2) by simp
  have i3: "distinct (map fst items)" using Cons.prems(3) by simp
  have i4: "\<forall>it \<in> set items. keyPrefix (config ?po) @ fst it \<notin> fst ` set (cache ?po)"
  proof
    fix it assume k: "it \<in> set items"
    then have "fst it \<in> set (map fst items)" by simp
    moreover have "fst item \<notin> set (map fst items)" using Cons.prems(3) by simp
    ultimately have "fst it \<noteq> fst item" by metis
    moreover have "keyPrefix (config po) @ fst it \<notin> fst ` set (cache po)"
      using k Cons.prems(4) by simp
    ultimately show "keyPrefix (config ?po) @ fst it \<notin> fst ` set (cache ?po)"
      using c g by simp
  qed
  from Cons.IH [OF i1 i2 i3 i4] c g show ?case
    by (simp add: map_size_def)
qed

lemma burst_items_distinct: "distinct (map fst (burst_items n))"
proof -
  have "inj_on (\<lambda>i. replicate (Suc i) CHR ''k'') (set [0..<n])"
    by (rule inj_onI) (metis length_replicate nat.inject)
  then show ?thesis
    by (simp add: burst_items_def distinct_map comp_def)
qed

text \<open>
  C4 does not hold of the code. \<open>evictOldest\<close> starts its search from \<open>Date.now()\<close> and
  takes an entry only if it is strictly older, so entries stored in the current millisecond
  are never evicted. 101 values stored under different keys within one millisecond, starting
  from the empty cache, are all kept: the cache holds 101 entries with \<open>maxSize = 100\<close>.
\<close>

theorem burst_exceeds_maxSize:
  "map_size (cache (setCache_all 1000 (burst_items 101) getInstance)) = 101
   \<and> maxSize (config (setCache_all 1000 (burst_items 101) getInstance)) = 100"
proof -
  have "map_size (cache (setCache_all 1000 (burst_items 101) getInstance))
          = map_size (cache getInstance) + length (burst_items 101)
        \<and> config (setCache_all 1000 (burst_items 101) getInstance) = config getInstance"
    by (rule setCache_all_same_ms)
       (simp_all add: getInstance_def initial_config_def burst_items_distinct)
  then show ?thesis
    by (simp add: getInstance_def initial_config_def burst_items_def map_size_def)
qed

end
